theory Spec2Isabelle
  imports Main "HOL-Library.AList"
begin

section \<open>Case converter (infrastructure/utils/caseConverter)\<close>

text \<open>
  Strings are lists of characters. The two regular expressions of the source only look
  at the ASCII ranges \<open>A-Z\<close> and \<open>a-z\<close> and at the underscore; every other character is
  copied. The character classes are ranges of character codes, as in the regular
  expressions, and \<open>toLowerCase\<close>/\<open>toUpperCase\<close> are only ever applied to a character the
  class has matched, where they add or subtract 32.
\<close>

definition isUpperAZ :: "char \<Rightarrow> bool" where
  "isUpperAZ c = (65 \<le> (of_char c :: nat) \<and> (of_char c :: nat) \<le> 90)"

definition isLowerAZ :: "char \<Rightarrow> bool" where
  "isLowerAZ c = (97 \<le> (of_char c :: nat) \<and> (of_char c :: nat) \<le> 122)"

definition isDigit09 :: "char \<Rightarrow> bool" where
  "isDigit09 c = (48 \<le> (of_char c :: nat) \<and> (of_char c :: nat) \<le> 57)"

definition toLowerCase :: "char \<Rightarrow> char" where
  "toLowerCase c = (if isUpperAZ c then char_of ((of_char c :: nat) + 32) else c)"

definition toUpperCase :: "char \<Rightarrow> char" where
  "toUpperCase c = (if isLowerAZ c then char_of ((of_char c :: nat) - 32) else c)"

text \<open>
  \<^verbatim>\<open>str.replace(/[A-Z]/g, (letter) => `_${letter.toLowerCase()}`)\<close>:
  every capital letter is replaced by an underscore and the letter in lower case.
\<close>

fun camelToSnake :: "string \<Rightarrow> string" where
  "camelToSnake [] = []"
| "camelToSnake (c # cs) =
     (if isUpperAZ c then CHR ''_'' # toLowerCase c # camelToSnake cs
      else c # camelToSnake cs)"

text \<open>
  \<^verbatim>\<open>str.replace(/_([a-z])/g, (_, letter) => letter.toUpperCase())\<close>:
  the scan goes from left to right; a match consumes the underscore and the letter, and
  the scan goes on behind the letter. An underscore that is last, or that stands before
  anything but a lower-case letter, is copied.
\<close>

fun snakeToCamel :: "string \<Rightarrow> string" where
  "snakeToCamel [] = []"
| "snakeToCamel [c] = [c]"
| "snakeToCamel (c # d # cs) =
     (if c = CHR ''_'' \<and> isLowerAZ d then toUpperCase d # snakeToCamel cs
      else c # snakeToCamel (d # cs))"

text \<open>
  The strings of the round-trip property: lower-case letters, digits and capital letters,
  the first character not a capital letter.
\<close>

definition isCamelName :: "string \<Rightarrow> bool" where
  "isCamelName s =
     (list_all (\<lambda>c. isLowerAZ c \<or> isDigit09 c \<or> isUpperAZ c) s \<and>
      (case s of [] \<Rightarrow> True | c # _ \<Rightarrow> \<not> isUpperAZ c))"

text \<open>
  \<open>hasMatch s\<close>: the regular expression \<^verbatim>\<open>/_([a-z])/\<close> matches somewhere in \<open>s\<close>.
\<close>

fun hasMatch :: "string \<Rightarrow> bool" where
  "hasMatch (c # d # cs) = ((c = CHR ''_'' \<and> isLowerAZ d) \<or> hasMatch (d # cs))"
| "hasMatch cs = False"

section \<open>JavaScript values\<close>

text \<open>
  The values the library passes through without looking inside (\<^verbatim>\<open>unknown\<close> in the
  source), as far as the code distinguishes them: \<open>JObject\<close> is a plain object with its own
  enumerable properties in the order of \<^verbatim>\<open>Object.entries\<close>; \<open>JInstance\<close> is any other
  non-array object (a \<^verbatim>\<open>Date\<close>, an instance of a class), with the name of its
  constructor and its own enumerable properties. Numbers are never computed with, so an
  integer stands for them.
\<close>

datatype jsval =
    JUndefined
  | JNull
  | JBool bool
  | JNumber int
  | JString string
  | JArray "jsval list"
  | JObject "(string \<times> jsval) list"
  | JInstance string "(string \<times> jsval) list"

text \<open>
  An object under construction is the list of its properties. The assignment
  \<^verbatim>\<open>result[k] = v\<close> is \<^const>\<open>AList.update\<close>: the value of an existing key is replaced
  where it stands, a new key is added at the end. \<open>performAll\<close> performs a sequence of
  such assignments, the first one first. (JavaScript enumerates keys that are array
  indices before the others; the properties proved below are about the keys, the values
  and the number of the properties of an object, not about their order.)
\<close>

definition performAll :: "(string \<times> 'v) list \<Rightarrow> (string \<times> 'v) list \<Rightarrow> (string \<times> 'v) list" where
  "performAll assignments obj =
     foldl (\<lambda>result (k, v). AList.update k v result) obj assignments"

section \<open>Module descriptors (domain/abstracts/SuiteCrmModule)\<close>

text \<open>
  A \<^verbatim>\<open>SuiteCrmModule\<close> holds its name and a reference to its \<^verbatim>\<open>links\<close> object, the
  record from camel-case keys to relationships. The \<^verbatim>\<open>links\<close> objects live in a store,
  a list indexed by address, so that sharing and mutation of a \<^verbatim>\<open>links\<close> object are
  visible: the constructor stores the reference it is given
  (\<^verbatim>\<open>this.links = existingLinks\<close>), it does not copy. A reference of a running program
  always points to an allocated object: \<open>links m < length st\<close>. The field \<^verbatim>\<open>name\<close> of a
  module is \<open>moduleName\<close> here, and the fields of a \<^verbatim>\<open>LinkQuery\<close> carry the prefix
  \<open>query\<close>, since \<open>name\<close>, \<open>linkName\<close> and \<open>selectedFields\<close> are fields of other
  objects below. All fields of the source are \<^verbatim>\<open>readonly\<close>.
\<close>

datatype SuiteCrmModule = SuiteCrmModule (moduleName: string) (links: nat)

datatype SuiteCrmRelationship =
  SuiteCrmRelationship (linkName: string) (relatedModule: SuiteCrmModule)

type_synonym linksObject = "(string \<times> SuiteCrmRelationship) list"

type_synonym store = "linksObject list"

record LinkQuery =
  queryLinkName :: string
  queryModule :: SuiteCrmModule
  querySelectedFields :: "string list"

text \<open>\<^verbatim>\<open>SuiteCrmRelationship.select(selectedFields)\<close>.\<close>

definition select :: "SuiteCrmRelationship \<Rightarrow> string list \<Rightarrow> LinkQuery" where
  "select relationship selected =
     \<lparr>queryLinkName = linkName relationship,
      queryModule = relatedModule relationship,
      querySelectedFields = selected\<rparr>"

text \<open>
  \<^verbatim>\<open>new SuiteCrmModule(name)\<close>: the default value \<^verbatim>\<open>{}\<close> of \<^verbatim>\<open>existingLinks\<close> is a
  fresh empty object.
\<close>

definition newModule :: "store \<Rightarrow> string \<Rightarrow> store \<times> SuiteCrmModule" where
  "newModule st n = (st @ [[]], SuiteCrmModule n (length st))"

text \<open>
  \<^verbatim>\<open>withLink(linkName, relatedModule)\<close>: the object spread
  \<^verbatim>\<open>{...this.links, [camelKey]: newRelationship}\<close> allocates a new object, copies the
  properties of \<^verbatim>\<open>this.links\<close> and then assigns \<^verbatim>\<open>camelKey\<close>; the new module refers
  to the new object. The method has no \<^verbatim>\<open>throw\<close> and no test of the key.
\<close>

definition withLink ::
  "store \<Rightarrow> SuiteCrmModule \<Rightarrow> string \<Rightarrow> SuiteCrmModule \<Rightarrow> store \<times> SuiteCrmModule" where
  "withLink st this lnk related =
     (let newRelationship = SuiteCrmRelationship lnk related;
          camelKey = snakeToCamel lnk;
          newLinks = AList.update camelKey newRelationship (st ! links this)
      in (st @ [newLinks], SuiteCrmModule (moduleName this) (length st)))"

section \<open>Flattening (SuiteCrmService.flattenEntryList)\<close>

text \<open>
  The response of \<^verbatim>\<open>get_entry_list\<close>, as the interfaces \<^verbatim>\<open>EntryListResponse\<close>,
  \<^verbatim>\<open>LinkList\<close>, \<^verbatim>\<open>LinkRecord\<close> and \<^verbatim>\<open>NameValue\<close> declare it. An optional
  property is an \<open>option\<close>, \<open>None\<close> when it is missing. A \<^verbatim>\<open>Record<string, NameValue>\<close>
  is the list of its entries in the order of \<^verbatim>\<open>Object.entries\<close>. The response is parsed
  JSON, so that an element of an array, or the value of a field, can be \<^verbatim>\<open>null\<close> at run
  time whatever the interface says: the elements are \<open>option\<close>s too, \<open>None\<close> for
  \<^verbatim>\<open>null\<close>. Reading a property of \<^verbatim>\<open>null\<close> raises \<^verbatim>\<open>TypeError\<close>; the code guards
  two of its reads, \<^verbatim>\<open>valueObj?.value\<close> and the test of \<^verbatim>\<open>relationshipList[i]\<close>.
  The fields \<^verbatim>\<open>name\<close> and \<^verbatim>\<open>value\<close> of a \<^verbatim>\<open>NameValue\<close> are \<open>nv_name\<close> and
  \<open>nv_value\<close>.
\<close>

record NameValue =
  nv_name :: string
  nv_value :: jsval

type_synonym nameValueList = "(string \<times> NameValue option) list"

record LinkRecord =
  link_value :: "nameValueList option"

record LinkList =
  name :: string
  records :: "LinkRecord option list option"

record RelationshipEntry =
  link_list :: "LinkList option list option"

record Entry =
  name_value_list :: "nameValueList option"

record EntryListResponse =
  entry_list :: "Entry option list option"
  relationship_list :: "RelationshipEntry option list option"

datatype error = TypeError | RemoteError string

type_synonym flatEntry = "(string \<times> jsval) list"

text \<open>
  The entry of a field as SuiteCRM sends it: under the key \<open>k\<close>, the object
  \<^verbatim>\<open>{name: k, value: v}\<close>.
\<close>

definition field :: "string \<Rightarrow> jsval \<Rightarrow> string \<times> NameValue option" where
  "field k v = (k, Some \<lparr>nv_name = k, nv_value = v\<rparr>)"

text \<open>\<^verbatim>\<open>x || []\<close> and \<^verbatim>\<open>x || {}\<close> for an optional array or record \<open>x\<close>.\<close>

definition orEmpty :: "'a list option \<Rightarrow> 'a list" where
  "orEmpty xs = (case xs of None \<Rightarrow> [] | Some ys \<Rightarrow> ys)"

text \<open>\<^verbatim>\<open>valueObj?.value\<close>.\<close>

definition valueOf :: "NameValue option \<Rightarrow> jsval" where
  "valueOf valueObj = (case valueObj of None \<Rightarrow> JUndefined | Some x \<Rightarrow> nv_value x)"

text \<open>
  Lines 348 to 350, the loop over \<^verbatim>\<open>Object.entries(nameValueList)\<close>:
  \<^verbatim>\<open>flatEntry[snakeToCamel(key)] = valueObj?.value\<close>.
\<close>

fun flattenNameValueList :: "nameValueList \<Rightarrow> flatEntry \<Rightarrow> flatEntry" where
  "flattenNameValueList [] flatEntry = flatEntry"
| "flattenNameValueList ((key, valueObj) # rest) flatEntry =
     flattenNameValueList rest
       (AList.update (snakeToCamel key) (valueOf valueObj) flatEntry)"

text \<open>
  Lines 368 to 371, the loop over \<^verbatim>\<open>Object.entries(linkValue)\<close>:
  \<^verbatim>\<open>flatEntry[snakeToCamel(`${linkName}_${fieldName}`)] = fieldValue?.value\<close>.
\<close>

fun flattenLinkValue :: "string \<Rightarrow> nameValueList \<Rightarrow> flatEntry \<Rightarrow> flatEntry" where
  "flattenLinkValue lnk [] flatEntry = flatEntry"
| "flattenLinkValue lnk ((fieldName, fieldValue) # rest) flatEntry =
     flattenLinkValue lnk rest
       (AList.update (snakeToCamel (lnk @ ''_'' @ fieldName)) (valueOf fieldValue) flatEntry)"

text \<open>
  Lines 362 to 372, the loop over \<^verbatim>\<open>records\<close>; \<^verbatim>\<open>record.link_value\<close> raises when
  the record is \<^verbatim>\<open>null\<close>.
\<close>

fun flattenRecords :: "string \<Rightarrow> LinkRecord option list \<Rightarrow> flatEntry \<Rightarrow> error + flatEntry" where
  "flattenRecords lnk [] flatEntry = Inr flatEntry"
| "flattenRecords lnk (None # rest) flatEntry = Inl TypeError"
| "flattenRecords lnk (Some rcd # rest) flatEntry =
     flattenRecords lnk rest (flattenLinkValue lnk (orEmpty (link_value rcd)) flatEntry)"

text \<open>
  Lines 357 to 373, the loop over \<^verbatim>\<open>linkList\<close>; \<^verbatim>\<open>link.name\<close> raises when the
  link is \<^verbatim>\<open>null\<close>.
\<close>

fun flattenLinkList :: "LinkList option list \<Rightarrow> flatEntry \<Rightarrow> error + flatEntry" where
  "flattenLinkList [] flatEntry = Inr flatEntry"
| "flattenLinkList (None # rest) flatEntry = Inl TypeError"
| "flattenLinkList (Some link # rest) flatEntry =
     (case flattenRecords (name link) (orEmpty (records link)) flatEntry of
        Inl e \<Rightarrow> Inl e
      | Inr flatEntry' \<Rightarrow> flattenLinkList rest flatEntry')"

text \<open>
  \<^verbatim>\<open>relationshipList[i]\<close>: \<^verbatim>\<open>undefined\<close> behind the end of the array. The test
  \<^verbatim>\<open>if (relationshipList[i])\<close> takes \<^verbatim>\<open>undefined\<close> and \<^verbatim>\<open>null\<close> alike as absent.
\<close>

definition relationshipAt :: "RelationshipEntry option list \<Rightarrow> nat \<Rightarrow> RelationshipEntry option" where
  "relationshipAt rels i = (if i < length rels then rels ! i else None)"

text \<open>
  Lines 343 to 377, the body of the loop over \<open>i\<close>, for the entry and for
  \<^verbatim>\<open>relationshipList[i]\<close>; \<^verbatim>\<open>entry.name_value_list\<close> raises when the entry is
  \<^verbatim>\<open>null\<close>.
\<close>

definition flattenEntry :: "Entry option \<Rightarrow> RelationshipEntry option \<Rightarrow> error + flatEntry" where
  "flattenEntry entry relationship =
     (case entry of
        None \<Rightarrow> Inl TypeError
      | Some e \<Rightarrow>
          (let flatEntry = flattenNameValueList (orEmpty (name_value_list e)) []
           in case relationship of
                None \<Rightarrow> Inr flatEntry
              | Some rel \<Rightarrow> flattenLinkList (orEmpty (link_list rel)) flatEntry))"

text \<open>
  Lines 342 to 378, the loop \<^verbatim>\<open>for (let i = 0; i < entryList.length; i++)\<close>: the
  entries still to come, the index of the first of them, and \<^verbatim>\<open>parsedEntries\<close>.
\<close>

fun flattenLoop ::
  "RelationshipEntry option list \<Rightarrow> nat \<Rightarrow> Entry option list \<Rightarrow> flatEntry list
     \<Rightarrow> error + flatEntry list" where
  "flattenLoop rels i [] parsedEntries = Inr parsedEntries"
| "flattenLoop rels i (entry # rest) parsedEntries =
     (case flattenEntry entry (relationshipAt rels i) of
        Inl e \<Rightarrow> Inl e
      | Inr flatEntry \<Rightarrow> flattenLoop rels (Suc i) rest (parsedEntries @ [flatEntry]))"

definition entryList :: "EntryListResponse \<Rightarrow> Entry option list" where
  "entryList result = orEmpty (entry_list result)"

definition relationshipList :: "EntryListResponse \<Rightarrow> RelationshipEntry option list" where
  "relationshipList result = orEmpty (relationship_list result)"

definition flattenEntryList :: "EntryListResponse \<Rightarrow> error + flatEntry list" where
  "flattenEntryList result =
     flattenLoop (relationshipList result) 0 (entryList result) []"

text \<open>
  A well-formed response: every element of \<^verbatim>\<open>entry_list\<close>, of a \<^verbatim>\<open>link_list\<close> and of
  a \<^verbatim>\<open>records\<close> array is an object. Optional properties may be missing, and an element
  of \<^verbatim>\<open>relationship_list\<close> may be \<^verbatim>\<open>null\<close>.
\<close>

definition wellFormedLink :: "LinkList option \<Rightarrow> bool" where
  "wellFormedLink link =
     (case link of
        None \<Rightarrow> False
      | Some l \<Rightarrow> list_all (\<lambda>rcd. rcd \<noteq> None) (orEmpty (records l)))"

definition wellFormedRelationship :: "RelationshipEntry option \<Rightarrow> bool" where
  "wellFormedRelationship relationship =
     (case relationship of
        None \<Rightarrow> True
      | Some rel \<Rightarrow> list_all wellFormedLink (orEmpty (link_list rel)))"

definition wellFormed :: "EntryListResponse \<Rightarrow> bool" where
  "wellFormed result =
     (list_all (\<lambda>entry. entry \<noteq> None) (entryList result) \<and>
      list_all wellFormedRelationship (relationshipList result))"

subsection \<open>The assignments of a response, in its order\<close>

text \<open>
  The specification describes flattening as a sequence of assignments
  \<open>output[i][toInternal(\<dots>)] = value\<close>: first one for every own field, then, for every
  relationship group, for every sub-record of the group, for every field of the
  sub-record, one under the composite key. These lists follow that description; the
  functions above follow the code.
\<close>

fun present :: "'a option list \<Rightarrow> 'a list" where
  "present [] = []"
| "present (None # rest) = present rest"
| "present (Some x # rest) = x # present rest"

definition ownAssignments :: "nameValueList \<Rightarrow> (string \<times> jsval) list" where
  "ownAssignments nvl =
     map (\<lambda>(key, valueObj). (snakeToCamel key, valueOf valueObj)) nvl"

definition fieldAssignments :: "string \<Rightarrow> nameValueList \<Rightarrow> (string \<times> jsval) list" where
  "fieldAssignments lnk nvl =
     map (\<lambda>(fieldName, fieldValue). (snakeToCamel (lnk @ ''_'' @ fieldName), valueOf fieldValue))
       nvl"

definition recordAssignments :: "string \<Rightarrow> LinkRecord \<Rightarrow> (string \<times> jsval) list" where
  "recordAssignments lnk rcd = fieldAssignments lnk (orEmpty (link_value rcd))"

definition linkAssignments :: "LinkList \<Rightarrow> (string \<times> jsval) list" where
  "linkAssignments link =
     concat (map (recordAssignments (name link)) (present (orEmpty (records link))))"

definition relationshipAssignments :: "RelationshipEntry option \<Rightarrow> (string \<times> jsval) list" where
  "relationshipAssignments relationship =
     (case relationship of
        None \<Rightarrow> []
      | Some rel \<Rightarrow> concat (map linkAssignments (present (orEmpty (link_list rel)))))"

subsection \<open>Missing components filled in\<close>

text \<open>The response with every missing array or record replaced by an empty one.\<close>

definition fillRecord :: "LinkRecord \<Rightarrow> LinkRecord" where
  "fillRecord rcd = \<lparr>link_value = Some (orEmpty (link_value rcd))\<rparr>"

definition fillLink :: "LinkList \<Rightarrow> LinkList" where
  "fillLink link =
     \<lparr>name = name link,
      records = Some (map (map_option fillRecord) (orEmpty (records link)))\<rparr>"

definition fillRelationship :: "RelationshipEntry \<Rightarrow> RelationshipEntry" where
  "fillRelationship rel =
     \<lparr>link_list = Some (map (map_option fillLink) (orEmpty (link_list rel)))\<rparr>"

definition fillEntry :: "Entry \<Rightarrow> Entry" where
  "fillEntry e = \<lparr>name_value_list = Some (orEmpty (name_value_list e))\<rparr>"

definition fillMissing :: "EntryListResponse \<Rightarrow> EntryListResponse" where
  "fillMissing result =
     \<lparr>entry_list = Some (map (map_option fillEntry) (entryList result)),
      relationship_list = Some (map (map_option fillRelationship) (relationshipList result))\<rparr>"

section \<open>Queries (SuiteCrmService.getEntryListRaw, getEntryList)\<close>

text \<open>
  \<^verbatim>\<open>GetEntryListOptions\<close>: an optional property is \<open>None\<close> when the caller leaves it
  out; the property \<^verbatim>\<open>module\<close> is \<open>targetModule\<close>. The properties of the arguments
  object carry the prefix \<open>arg_\<close>, three of them having the name of an option. The
  elements \<^verbatim>\<open>{name, value}\<close> of \<^verbatim>\<open>link_name_to_fields_array\<close> are pairs, and the
  numbers 0 and 1 of \<^verbatim>\<open>deleted\<close> are natural numbers.
\<close>

record GetEntryListOptions =
  targetModule :: SuiteCrmModule
  query :: string
  orderBy :: "string option"
  offset :: "int option"
  selectedFields :: "string list option"
  linkNameToFieldsArray :: "LinkQuery list option"
  maxResults :: "int option"
  deleted :: "bool option"

record GetEntryListArgs =
  arg_module_name :: string
  arg_query :: string
  arg_order_by :: string
  arg_offset :: int
  arg_select_fields :: "string list"
  arg_link_name_to_fields_array :: "(string \<times> string list) list"
  arg_max_results :: int
  arg_deleted :: nat

text \<open>
  Lines 260 to 272, the constant \<^verbatim>\<open>entryArgs\<close>. \<^verbatim>\<open>options.orderBy ? \<dots> : ''\<close> tests
  truthiness: the empty string counts as left out. \<^verbatim>\<open>??\<close> and \<^verbatim>\<open>?.\<close> test for a
  missing value only.
\<close>

definition entryArgs :: "GetEntryListOptions \<Rightarrow> GetEntryListArgs" where
  "entryArgs options =
     \<lparr>arg_module_name = moduleName (targetModule options),
      arg_query = query options,
      arg_order_by =
        (case orderBy options of
           None \<Rightarrow> []
         | Some ob \<Rightarrow> if ob = [] then [] else camelToSnake ob),
      arg_offset = (case offset options of None \<Rightarrow> 0 | Some n \<Rightarrow> n),
      arg_select_fields =
        (case selectedFields options of None \<Rightarrow> [] | Some fs \<Rightarrow> map camelToSnake fs),
      arg_link_name_to_fields_array =
        (case linkNameToFieldsArray options of
           None \<Rightarrow> []
         | Some items \<Rightarrow>
             map (\<lambda>item. (queryLinkName item, map camelToSnake (querySelectedFields item))) items),
      arg_max_results = (case maxResults options of None \<Rightarrow> 20 | Some n \<Rightarrow> n),
      arg_deleted = (if deleted options = Some True then 1 else 0)\<rparr>"

text \<open>
  The remote call \<^verbatim>\<open>this.call('get_entry_list', entryArgs)\<close>, with the session, the
  transport and the retry behind it, is a parameter: it answers the arguments with a
  response or with an error, which is passed on.
\<close>

definition getEntryListRaw ::
  "(GetEntryListArgs \<Rightarrow> error + EntryListResponse) \<Rightarrow> GetEntryListOptions
     \<Rightarrow> error + EntryListResponse" where
  "getEntryListRaw call options = call (entryArgs options)"

definition getEntryList ::
  "(GetEntryListArgs \<Rightarrow> error + EntryListResponse) \<Rightarrow> GetEntryListOptions
     \<Rightarrow> error + flatEntry list" where
  "getEntryList call options =
     (case getEntryListRaw call options of
        Inl e \<Rightarrow> Inl e
      | Inr rawResponse \<Rightarrow> flattenEntryList rawResponse)"

section \<open>Deep conversion (objectToSnakeCase, objectToCamelCase)\<close>

text \<open>
  \<^verbatim>\<open>Object.entries\<close> of an array lists its elements under their indices written in
  decimal.
\<close>

definition digitChar :: "nat \<Rightarrow> char" where
  "digitChar d = char_of (48 + d)"

fun decimal :: "nat \<Rightarrow> string" where
  "decimal n =
     (if n < 10 then [digitChar n] else decimal (n div 10) @ [digitChar (n mod 10)])"

text \<open>
  The two functions of the source have the same body but for the conversion of the
  keys, the parameter \<open>kf\<close> here. \<open>convertValue\<close> is the chain of tests of the loop body,
  giving the value stored under the converted key: \<^verbatim>\<open>null\<close> and \<^verbatim>\<open>undefined\<close> as
  they are; an array mapped by \<open>convertItem\<close>; an object whose \<^verbatim>\<open>constructor\<close> is
  \<^verbatim>\<open>Object\<close> (a plain object without a property of that name of its own) converted
  recursively; anything else as it is. \<open>convertItem\<close> is the callback of \<^verbatim>\<open>value.map\<close>:
  an item with \<^verbatim>\<open>typeof item === 'object' && item !== null\<close> is passed to the function
  itself, which walks \<^verbatim>\<open>Object.entries(item)\<close> and returns a new plain object; any
  other item is returned as it is. The keys of the objects converted are taken to be
  ordinary property names: an assignment to \<^verbatim>\<open>__proto__\<close> would set the prototype
  of the result, not a property.
\<close>

fun convertValue :: "(string \<Rightarrow> string) \<Rightarrow> jsval \<Rightarrow> jsval"
and convertItem :: "(string \<Rightarrow> string) \<Rightarrow> jsval \<Rightarrow> jsval"
where
  "convertValue kf JNull = JNull"
| "convertValue kf JUndefined = JUndefined"
| "convertValue kf (JArray xs) = JArray (map (convertItem kf) xs)"
| "convertValue kf (JObject ps) =
     (if map_of ps ''constructor'' = None
      then JObject (performAll (map (\<lambda>(key, v). (kf key, convertValue kf v)) ps) [])
      else JObject ps)"
| "convertValue kf (JInstance c ps) = JInstance c ps"
| "convertValue kf (JBool b) = JBool b"
| "convertValue kf (JNumber n) = JNumber n"
| "convertValue kf (JString s) = JString s"
| "convertItem kf (JArray xs) =
     JObject (performAll
       (zip (map (\<lambda>i. kf (decimal i)) [0..<length xs]) (map (convertValue kf) xs)) [])"
| "convertItem kf (JObject ps) =
     JObject (performAll (map (\<lambda>(key, v). (kf key, convertValue kf v)) ps) [])"
| "convertItem kf (JInstance c ps) =
     JObject (performAll (map (\<lambda>(key, v). (kf key, convertValue kf v)) ps) [])"
| "convertItem kf v = v"

definition objectToSnakeCase :: "(string \<times> jsval) list \<Rightarrow> (string \<times> jsval) list" where
  "objectToSnakeCase obj =
     performAll (map (\<lambda>(key, v). (camelToSnake key, convertValue camelToSnake v)) obj) []"

definition objectToCamelCase :: "(string \<times> jsval) list \<Rightarrow> (string \<times> jsval) list" where
  "objectToCamelCase obj =
     performAll (map (\<lambda>(key, v). (snakeToCamel key, convertValue snakeToCamel v)) obj) []"

section \<open>Properties of the case converter\<close>

subsection \<open>Round trip\<close>

lemma toUpperCase_toLowerCase:
  "isUpperAZ c \<Longrightarrow> isLowerAZ (toLowerCase c) \<and> toUpperCase (toLowerCase c) = c"
  unfolding isUpperAZ_def isLowerAZ_def toLowerCase_def toUpperCase_def
  by simp

lemma snakeToCamel_Cons:
  "c \<noteq> CHR ''_'' \<Longrightarrow> snakeToCamel (c # cs) = c # snakeToCamel cs"
  by (cases cs) simp_all

lemma roundtrip_no_underscore:
  "CHR ''_'' \<notin> set s \<Longrightarrow> snakeToCamel (camelToSnake s) = s"
  by (induction s) (auto simp: toUpperCase_toLowerCase snakeToCamel_Cons)

lemma isCamelName_no_underscore: "isCamelName s \<Longrightarrow> CHR ''_'' \<notin> set s"
  unfolding isCamelName_def list_all_iff isLowerAZ_def isDigit09_def isUpperAZ_def
  by auto

text \<open>
  Claim C8. For every string made of lower-case letters, digits and capital letters that
  does not start with a capital letter, converting to snake case and back gives the
  string again: \<open>snakeToCamel (camelToSnake s) = s\<close>.
\<close>

theorem camel_snake_roundtrip:
  assumes "isCamelName s"
  shows "snakeToCamel (camelToSnake s) = s"
proof -
  from assms have "CHR ''_'' \<notin> set s"
    by (rule isCamelName_no_underscore)
  then show ?thesis
    by (rule roundtrip_no_underscore)
qed

theorem camel_snake_roundtrip_witness:
  "isCamelName ''fitacFitacProy'' \<and>
   camelToSnake ''fitacFitacProy'' = ''fitac_fitac_proy'' \<and>
   snakeToCamel (camelToSnake ''fitacFitacProy'') = ''fitacFitacProy''"
proof -
  have h: "isCamelName ''fitacFitacProy''"
    by code_simp
  have s: "camelToSnake ''fitacFitacProy'' = ''fitac_fitac_proy''"
    by code_simp
  from h s camel_snake_roundtrip [OF h] show ?thesis
    by simp
qed

subsection \<open>The keys that are written\<close>

text \<open>
  An assignment \<^verbatim>\<open>obj[k] = v\<close> creates or replaces a property for every key but
  \<^verbatim>\<open>__proto__\<close>. The keys \<open>withLink\<close> and \<open>flattenEntryList\<close> assign are results of
  \<open>snakeToCamel\<close>, in which no underscore stands before a lower-case letter: none of
  them is \<^verbatim>\<open>__proto__\<close>.
\<close>

lemma toUpperCase_upper:
  assumes "isLowerAZ d"
  shows "isUpperAZ (toUpperCase d)"
proof -
  let ?n = "of_char d :: nat"
  from assms have bounds: "97 \<le> ?n" "?n \<le> 122"
    by (simp_all add: isLowerAZ_def)
  then have "(?n - 32) mod 256 = ?n - 32"
    by simp
  moreover from bounds have "65 \<le> ?n - 32 \<and> ?n - 32 \<le> 90"
    by arith
  ultimately show ?thesis
    by (simp add: isUpperAZ_def toUpperCase_def assms)
qed

lemma upper_not_lower: "isUpperAZ c \<Longrightarrow> \<not> isLowerAZ c \<and> c \<noteq> CHR ''_''"
  unfolding isUpperAZ_def isLowerAZ_def by auto

lemma snakeToCamel_head:
  "snakeToCamel (d # cs) = x # xs \<Longrightarrow> x = d \<or> isUpperAZ x"
  by (cases cs) (auto simp: toUpperCase_upper split: if_splits)

lemma snakeToCamel_no_match: "\<not> hasMatch (snakeToCamel s)"
proof (induction s rule: snakeToCamel.induct)
  case 1
  then show ?case by simp
next
  case (2 c)
  then show ?case by simp
next
  case (3 c d cs)
  show ?case
  proof (cases "c = CHR ''_'' \<and> isLowerAZ d")
    case True
    with 3 have ih: "\<not> hasMatch (snakeToCamel cs)"
      by simp
    from True have "toUpperCase d \<noteq> CHR ''_''"
      using toUpperCase_upper upper_not_lower by blast
    with ih True show ?thesis
      by (cases "snakeToCamel cs") simp_all
  next
    case False
    with 3 have ih: "\<not> hasMatch (snakeToCamel (d # cs))"
      by simp
    have "snakeToCamel (d # cs) \<noteq> []"
      by (cases cs) simp_all
    then obtain x xs where x: "snakeToCamel (d # cs) = x # xs"
      by (auto simp: neq_Nil_conv)
    from snakeToCamel_head [OF x] False have "\<not> (c = CHR ''_'' \<and> isLowerAZ x)"
      using upper_not_lower by blast
    moreover from False have "snakeToCamel (c # d # cs) = c # snakeToCamel (d # cs)"
      by auto
    ultimately show ?thesis
      using ih by (simp add: x)
  qed
qed

lemma snakeToCamel_not_proto: "snakeToCamel s \<noteq> ''__proto__''"
proof
  assume "snakeToCamel s = ''__proto__''"
  moreover have "hasMatch ''__proto__''"
    by code_simp
  ultimately show False
    using snakeToCamel_no_match [of s] by simp
qed

subsection \<open>Round trip from snake case\<close>

lemma toLowerCase_toUpperCase:
  assumes "isLowerAZ d"
  shows "toLowerCase (toUpperCase d) = d"
proof -
  let ?n = "of_char d :: nat"
  from assms have bounds: "97 \<le> ?n" "?n \<le> 122"
    by (simp_all add: isLowerAZ_def)
  then have m: "(?n - 32) mod 256 = ?n - 32"
    by simp
  from bounds have "?n - 32 + 32 = ?n"
    by arith
  with toUpperCase_upper [OF assms] m show ?thesis
    by (simp add: toLowerCase_def) (simp add: toUpperCase_def assms)
qed

lemma camelToSnake_Cons:
  "\<not> isUpperAZ c \<Longrightarrow> camelToSnake (c # cs) = c # camelToSnake cs"
  by simp

text \<open>
  The round trip in the other direction: a string without capital letters is given back
  by \<open>snakeToCamel\<close> followed by \<open>camelToSnake\<close>.
\<close>

theorem snake_camel_roundtrip:
  "list_all (\<lambda>c. \<not> isUpperAZ c) s \<Longrightarrow> camelToSnake (snakeToCamel s) = s"
proof (induction s rule: snakeToCamel.induct)
  case 1
  then show ?case by simp
next
  case (2 c)
  then show ?case by simp
next
  case (3 c d cs)
  show ?case
  proof (cases "c = CHR ''_'' \<and> isLowerAZ d")
    case True
    with 3 have "camelToSnake (snakeToCamel cs) = cs"
      by simp
    with True show ?thesis
      by (simp add: toUpperCase_upper toLowerCase_toUpperCase)
  next
    case False
    with 3 have "camelToSnake (snakeToCamel (d # cs)) = d # cs"
      by simp
    moreover from False have "snakeToCamel (c # d # cs) = c # snakeToCamel (d # cs)"
      by auto
    moreover from "3.prems" have "\<not> isUpperAZ c"
      by simp
    ultimately show ?thesis
      by simp
  qed
qed

theorem snake_camel_roundtrip_witness:
  "list_all (\<lambda>c. \<not> isUpperAZ c) ''fitac_fitac_proy'' \<and>
   snakeToCamel ''fitac_fitac_proy'' = ''fitacFitacProy'' \<and>
   camelToSnake (snakeToCamel ''fitac_fitac_proy'') = ''fitac_fitac_proy''"
proof -
  have h: "list_all (\<lambda>c. \<not> isUpperAZ c) ''fitac_fitac_proy''"
    by code_simp
  have s: "snakeToCamel ''fitac_fitac_proy'' = ''fitacFitacProy''"
    by code_simp
  from h s snake_camel_roundtrip [OF h] show ?thesis
    by simp
qed

section \<open>Properties of module descriptors\<close>

lemma length_update:
  "length (AList.update k v al) =
     (if k \<in> fst ` set al then length al else Suc (length al))"
  by (induction al) auto

lemma withLink_result:
  "withLink st m lnk related =
     (st @ [AList.update (snakeToCamel lnk) (SuiteCrmRelationship lnk related) (st ! links m)],
      SuiteCrmModule (moduleName m) (length st))"
  by (simp add: withLink_def)

text \<open>
  Claim C1, as stated, fails: no error is raised. \<open>my_link\<close> and \<open>myLink\<close> both have
  the key \<open>myLink\<close>. Starting from the modules \<open>Accounts\<close> and \<open>Contacts\<close>, both without
  relationships, the first \<open>withLink\<close> returns \<open>Accounts\<close> with the relationship
  \<open>my_link\<close>, and the second returns \<open>Accounts\<close> with the relationship \<open>myLink\<close> alone.
\<close>

theorem withLink_collision_counterexample:
  "snakeToCamel ''my_link'' = ''myLink'' \<and> snakeToCamel ''myLink'' = ''myLink'' \<and>
   newModule [] ''Accounts'' = ([[]], SuiteCrmModule ''Accounts'' 0) \<and>
   newModule [[]] ''Contacts'' = ([[], []], SuiteCrmModule ''Contacts'' 1) \<and>
   withLink [[], []] (SuiteCrmModule ''Accounts'' 0) ''my_link'' (SuiteCrmModule ''Contacts'' 1) =
     ([[], [],
       [(''myLink'', SuiteCrmRelationship ''my_link'' (SuiteCrmModule ''Contacts'' 1))]],
      SuiteCrmModule ''Accounts'' 2) \<and>
   withLink
     [[], [], [(''myLink'', SuiteCrmRelationship ''my_link'' (SuiteCrmModule ''Contacts'' 1))]]
     (SuiteCrmModule ''Accounts'' 2) ''myLink'' (SuiteCrmModule ''Contacts'' 1) =
     ([[], [],
       [(''myLink'', SuiteCrmRelationship ''my_link'' (SuiteCrmModule ''Contacts'' 1))],
       [(''myLink'', SuiteCrmRelationship ''myLink'' (SuiteCrmModule ''Contacts'' 1))]],
      SuiteCrmModule ''Accounts'' 3)"
  by code_simp

text \<open>
  Claim C1, amended. Deriving a descriptor with a relationship whose name has the key of
  a relationship the descriptor already has raises nothing: \<open>withLink\<close> returns a new
  descriptor in which the key is bound to the new relationship, in place of the earlier
  one; the keys, their number and every other relationship are those of the descriptor
  it was derived from.
\<close>

theorem withLink_collision_replaces:
  assumes "snakeToCamel lnk \<in> fst ` set (st ! links m)"
    and "withLink st m lnk related = (st', m')"
  shows "map_of (st' ! links m') (snakeToCamel lnk) = Some (SuiteCrmRelationship lnk related) \<and>
     length (st' ! links m') = length (st ! links m) \<and>
     fst ` set (st' ! links m') = fst ` set (st ! links m) \<and>
     (\<forall>k. k \<noteq> snakeToCamel lnk \<longrightarrow> map_of (st' ! links m') k = map_of (st ! links m) k)"
proof -
  let ?new = "AList.update (snakeToCamel lnk) (SuiteCrmRelationship lnk related) (st ! links m)"
  from assms(2) have "st' ! links m' = ?new"
    by (auto simp: withLink_result)
  moreover have "map_of ?new = (map_of (st ! links m))(snakeToCamel lnk \<mapsto> SuiteCrmRelationship lnk related)"
    by (rule update_conv')
  moreover have "length ?new = length (st ! links m)"
    using assms(1) by (simp add: length_update)
  moreover have "fst ` set ?new = fst ` set (st ! links m)"
    using assms(1) by (auto simp: dom_update)
  ultimately show ?thesis
    by simp
qed

theorem withLink_collision_replaces_witness:
  "snakeToCamel ''myLink'' \<in> fst ` set
     ([[], [], [(''myLink'', SuiteCrmRelationship ''my_link'' (SuiteCrmModule ''Contacts'' 1))]]
        ! links (SuiteCrmModule ''Accounts'' 2)) \<and>
   withLink
     [[], [], [(''myLink'', SuiteCrmRelationship ''my_link'' (SuiteCrmModule ''Contacts'' 1))]]
     (SuiteCrmModule ''Accounts'' 2) ''myLink'' (SuiteCrmModule ''Contacts'' 1) =
     ([[], [],
       [(''myLink'', SuiteCrmRelationship ''my_link'' (SuiteCrmModule ''Contacts'' 1))],
       [(''myLink'', SuiteCrmRelationship ''myLink'' (SuiteCrmModule ''Contacts'' 1))]],
      SuiteCrmModule ''Accounts'' 3) \<and>
   length ([[], [],
       [(''myLink'', SuiteCrmRelationship ''my_link'' (SuiteCrmModule ''Contacts'' 1))],
       [(''myLink'', SuiteCrmRelationship ''myLink'' (SuiteCrmModule ''Contacts'' 1))]]
        ! links (SuiteCrmModule ''Accounts'' 3)) = 1"
proof -
  let ?st = "[[], [], [(''myLink'', SuiteCrmRelationship ''my_link'' (SuiteCrmModule ''Contacts'' 1))]]"
  let ?st' = "[[], [],
       [(''myLink'', SuiteCrmRelationship ''my_link'' (SuiteCrmModule ''Contacts'' 1))],
       [(''myLink'', SuiteCrmRelationship ''myLink'' (SuiteCrmModule ''Contacts'' 1))]]"
  have key: "snakeToCamel ''myLink'' \<in> fst ` set (?st ! links (SuiteCrmModule ''Accounts'' 2))"
    by code_simp
  have ev: "withLink ?st (SuiteCrmModule ''Accounts'' 2) ''myLink'' (SuiteCrmModule ''Contacts'' 1) =
      (?st', SuiteCrmModule ''Accounts'' 3)"
    by code_simp
  have "length (?st ! links (SuiteCrmModule ''Accounts'' 2)) = 1"
    by code_simp
  with withLink_collision_replaces [OF key ev]
  have "length (?st' ! links (SuiteCrmModule ''Accounts'' 3)) = 1"
    by simp
  with key ev show ?thesis
    by blast
qed

text \<open>
  Claim C5, as stated, fails where the key is already present: the returned map is not
  the map of \<open>m\<close> plus a new entry. \<open>Accounts\<close> has the relationship \<open>myLink\<close> to
  \<open>Contacts\<close>; \<open>withLink\<close> with \<open>my_link\<close> and \<open>Leads\<close> returns a descriptor whose map
  has one entry, as before, and no longer has the relationship to \<open>Contacts\<close>.
\<close>

theorem withLink_plus_one_counterexample:
  "withLink
     [[], [], [(''myLink'', SuiteCrmRelationship ''myLink'' (SuiteCrmModule ''Contacts'' 0))]]
     (SuiteCrmModule ''Accounts'' 2) ''my_link'' (SuiteCrmModule ''Leads'' 1) =
     ([[], [],
       [(''myLink'', SuiteCrmRelationship ''myLink'' (SuiteCrmModule ''Contacts'' 0))],
       [(''myLink'', SuiteCrmRelationship ''my_link'' (SuiteCrmModule ''Leads'' 1))]],
      SuiteCrmModule ''Accounts'' 3) \<and>
   length [(''myLink'', SuiteCrmRelationship ''my_link'' (SuiteCrmModule ''Leads'' 1))] \<noteq>
     length [(''myLink'', SuiteCrmRelationship ''myLink'' (SuiteCrmModule ''Contacts'' 0))] + 1 \<and>
   map_of [(''myLink'', SuiteCrmRelationship ''my_link'' (SuiteCrmModule ''Leads'' 1))] ''myLink'' \<noteq>
     map_of [(''myLink'', SuiteCrmRelationship ''myLink'' (SuiteCrmModule ''Contacts'' 0))] ''myLink''"
  by code_simp

text \<open>
  Claim C5, amended. \<open>withLink\<close> changes no object of the store, so the relationship
  map of \<open>m\<close> is afterwards what it was; the descriptor it returns has the name of \<open>m\<close>
  and a new map: the map of \<open>m\<close> with the key \<open>snakeToCamel lnk\<close> bound to the new
  relationship. That is one entry more when the key was not a key of \<open>m\<close>, and as many
  entries as before when it was.
\<close>

theorem withLink_frame:
  assumes "links m < length st" and "withLink st m lnk related = (st', m')"
  shows "(\<forall>a < length st. st' ! a = st ! a) \<and> st' ! links m = st ! links m \<and>
     length st' = Suc (length st) \<and> links m' = length st \<and> links m' \<noteq> links m \<and>
     moduleName m' = moduleName m \<and>
     map_of (st' ! links m') =
       (map_of (st ! links m))(snakeToCamel lnk \<mapsto> SuiteCrmRelationship lnk related) \<and>
     fst ` set (st' ! links m') = insert (snakeToCamel lnk) (fst ` set (st ! links m)) \<and>
     length (st' ! links m') =
       (if snakeToCamel lnk \<in> fst ` set (st ! links m) then length (st ! links m)
        else Suc (length (st ! links m)))"
proof -
  let ?new = "AList.update (snakeToCamel lnk) (SuiteCrmRelationship lnk related) (st ! links m)"
  from assms(2) have st': "st' = st @ [?new]" and m': "m' = SuiteCrmModule (moduleName m) (length st)"
    by (simp_all add: withLink_result)
  have frame: "\<forall>a < length st. st' ! a = st ! a"
    by (simp add: st' nth_append)
  with assms(1) have same: "st' ! links m = st ! links m"
    by simp
  have new: "st' ! links m' = ?new"
    by (simp add: st' m')
  have "map_of ?new = (map_of (st ! links m))(snakeToCamel lnk \<mapsto> SuiteCrmRelationship lnk related)"
    by (rule update_conv')
  moreover have "fst ` set ?new = insert (snakeToCamel lnk) (fst ` set (st ! links m))"
    by (simp add: dom_update)
  moreover have "length ?new =
       (if snakeToCamel lnk \<in> fst ` set (st ! links m) then length (st ! links m)
        else Suc (length (st ! links m)))"
    by (rule length_update)
  ultimately show ?thesis
    using frame same assms(1) by (simp add: new) (simp add: st' m')
qed

theorem withLink_frame_witness:
  "links (SuiteCrmModule ''Accounts'' 0) < length [[], [] :: linksObject] \<and>
   withLink [[], []] (SuiteCrmModule ''Accounts'' 0) ''contacts'' (SuiteCrmModule ''Contacts'' 1) =
     ([[], [], [(''contacts'', SuiteCrmRelationship ''contacts'' (SuiteCrmModule ''Contacts'' 1))]],
      SuiteCrmModule ''Accounts'' 2) \<and>
   [[], [], [(''contacts'', SuiteCrmRelationship ''contacts'' (SuiteCrmModule ''Contacts'' 1))]]
     ! links (SuiteCrmModule ''Accounts'' 0) = [] \<and>
   length ([[], [], [(''contacts'', SuiteCrmRelationship ''contacts'' (SuiteCrmModule ''Contacts'' 1))]]
     ! links (SuiteCrmModule ''Accounts'' 2)) = 1"
proof -
  let ?st = "[[], [] :: linksObject]"
  let ?st' = "[[], [], [(''contacts'', SuiteCrmRelationship ''contacts'' (SuiteCrmModule ''Contacts'' 1))]]"
  have valid: "links (SuiteCrmModule ''Accounts'' 0) < length ?st"
    by simp
  have ev: "withLink ?st (SuiteCrmModule ''Accounts'' 0) ''contacts'' (SuiteCrmModule ''Contacts'' 1) =
      (?st', SuiteCrmModule ''Accounts'' 2)"
    by code_simp
  have old: "?st ! links (SuiteCrmModule ''Accounts'' 0) = []"
    by simp
  have nokey: "snakeToCamel ''contacts'' \<notin> fst ` set (?st ! links (SuiteCrmModule ''Accounts'' 0))"
    by simp
  from withLink_frame [OF valid ev]
  have "?st' ! links (SuiteCrmModule ''Accounts'' 0) = ?st ! links (SuiteCrmModule ''Accounts'' 0)"
    and "length (?st' ! links (SuiteCrmModule ''Accounts'' 2)) =
       (if snakeToCamel ''contacts'' \<in> fst ` set (?st ! links (SuiteCrmModule ''Accounts'' 0))
        then length (?st ! links (SuiteCrmModule ''Accounts'' 0))
        else Suc (length (?st ! links (SuiteCrmModule ''Accounts'' 0))))"
    by blast+
  with old nokey have "?st' ! links (SuiteCrmModule ''Accounts'' 0) = []"
    and "length (?st' ! links (SuiteCrmModule ''Accounts'' 2)) = 1"
    by simp_all
  with valid ev show ?thesis
    by blast
qed

section \<open>Properties of flattening\<close>

subsection \<open>Sequences of assignments\<close>

lemma performAll_Nil: "performAll [] obj = obj"
  by (simp add: performAll_def)

lemma performAll_Cons:
  "performAll ((k, v) # ps) obj = performAll ps (AList.update k v obj)"
  by (simp add: performAll_def)

lemma performAll_append:
  "performAll (ps @ qs) obj = performAll qs (performAll ps obj)"
  by (simp add: performAll_def)

lemma map_of_performAll:
  "map_of (performAll ps obj) = map_of obj ++ map_of (rev ps)"
proof (induction ps arbitrary: obj)
  case Nil
  then show ?case by (simp add: performAll_Nil)
next
  case (Cons p ps)
  obtain k v where p: "p = (k, v)" by (cases p)
  have "map_of (performAll (p # ps) obj) = map_of (AList.update k v obj) ++ map_of (rev ps)"
    by (simp add: p performAll_Cons Cons.IH)
  also have "\<dots> = (map_of obj)(k \<mapsto> v) ++ map_of (rev ps)"
    by (simp add: update_conv')
  also have "\<dots> = map_of obj ++ map_of (rev (p # ps))"
    by (rule ext) (simp add: p map_add_def split: option.splits)
  finally show ?case .
qed

lemma keys_performAll:
  "fst ` set (performAll ps obj) = fst ` set obj \<union> fst ` set ps"
proof -
  have "dom (map_of (performAll ps obj)) = dom (map_of obj) \<union> dom (map_of (rev ps))"
    by (simp add: map_of_performAll Un_commute)
  then show ?thesis
    by (simp add: dom_map_of_conv_image_fst)
qed

lemma performAll_last_write:
  assumes "ps = earlier @ (k, v) # later" and "k \<notin> fst ` set later"
  shows "map_of (performAll ps obj) k = Some v"
proof -
  have "map_of (rev later) k = None"
    using assms(2) by (simp add: map_of_eq_None_iff)
  then show ?thesis
    by (simp add: assms(1) map_of_performAll map_add_def)
qed

lemma performAll_untouched:
  assumes "k \<notin> fst ` set ps"
  shows "map_of (performAll ps obj) k = map_of obj k"
proof -
  have "map_of (rev ps) k = None"
    using assms by (simp add: map_of_eq_None_iff)
  then show ?thesis
    by (simp add: map_of_performAll map_add_def)
qed


subsection \<open>The loops perform the assignments of the response\<close>

lemma flattenNameValueList_performAll:
  "flattenNameValueList nvl obj = performAll (ownAssignments nvl) obj"
  by (induction nvl obj rule: flattenNameValueList.induct)
     (simp_all add: ownAssignments_def performAll_Nil performAll_Cons)

lemma flattenLinkValue_performAll:
  "flattenLinkValue lnk nvl obj = performAll (fieldAssignments lnk nvl) obj"
  by (induction lnk nvl obj rule: flattenLinkValue.induct)
     (simp_all add: fieldAssignments_def performAll_Nil performAll_Cons)

lemma flattenRecords_performAll:
  "list_all (\<lambda>rcd. rcd \<noteq> None) recs \<Longrightarrow>
   flattenRecords lnk recs obj =
     Inr (performAll (concat (map (recordAssignments lnk) (present recs))) obj)"
  by (induction lnk recs obj rule: flattenRecords.induct)
     (simp_all add: recordAssignments_def flattenLinkValue_performAll
        performAll_Nil performAll_append)

lemma flattenLinkList_performAll:
  "list_all wellFormedLink lnks \<Longrightarrow>
   flattenLinkList lnks obj =
     Inr (performAll (concat (map linkAssignments (present lnks))) obj)"
proof (induction lnks obj rule: flattenLinkList.induct)
  case (1 flatEntry)
  then show ?case by (simp add: performAll_Nil)
next
  case (2 rest flatEntry)
  then show ?case by (simp add: wellFormedLink_def)
next
  case (3 link rest flatEntry)
  from "3.prems" have rest: "list_all wellFormedLink rest"
    by simp
  from "3.prems" have "wellFormedLink (Some link)"
    by simp
  then have recs: "list_all (\<lambda>rcd. rcd \<noteq> None) (orEmpty (records link))"
    by (simp add: wellFormedLink_def)
  show ?case
    using "3.IH" rest
    by (simp add: flattenRecords_performAll [OF recs] linkAssignments_def performAll_append)
qed

lemma flattenEntry_performAll:
  "wellFormedRelationship relationship \<Longrightarrow>
   flattenEntry (Some e) relationship =
     Inr (performAll (relationshipAssignments relationship)
            (flattenNameValueList (orEmpty (name_value_list e)) []))"
  by (cases relationship)
     (simp_all add: flattenEntry_def relationshipAssignments_def wellFormedRelationship_def
        flattenLinkList_performAll performAll_Nil)

lemma wellFormed_relationshipAt:
  "list_all wellFormedRelationship rels \<Longrightarrow> wellFormedRelationship (relationshipAt rels i)"
  by (simp add: relationshipAt_def list_all_length wellFormedRelationship_def)

lemma flattenLoop_wellFormed:
  "list_all (\<lambda>entry. entry \<noteq> None) entries \<Longrightarrow> list_all wellFormedRelationship rels \<Longrightarrow>
   \<exists>out. flattenLoop rels i entries parsed = Inr (parsed @ out) \<and>
     length out = length entries \<and>
     (\<forall>j < length entries. \<exists>e. entries ! j = Some e \<and>
        out ! j = performAll (relationshipAssignments (relationshipAt rels (i + j)))
                    (flattenNameValueList (orEmpty (name_value_list e)) []))"
proof (induction entries arbitrary: i parsed)
  case Nil
  then show ?case by simp
next
  case (Cons entry rest)
  from Cons.prems obtain e where e: "entry = Some e"
    and rest: "list_all (\<lambda>entry. entry \<noteq> None) rest"
    by auto
  let ?fe = "performAll (relationshipAssignments (relationshipAt rels i))
               (flattenNameValueList (orEmpty (name_value_list e)) [])"
  have step: "flattenEntry entry (relationshipAt rels i) = Inr ?fe"
    unfolding e
    by (rule flattenEntry_performAll) (rule wellFormed_relationshipAt [OF Cons.prems(2)])
  from Cons.IH [OF rest Cons.prems(2), of "Suc i" "parsed @ [?fe]"]
  obtain out where out: "flattenLoop rels (Suc i) rest (parsed @ [?fe]) = Inr ((parsed @ [?fe]) @ out)"
    and len: "length out = length rest"
    and at: "\<forall>j < length rest. \<exists>e. rest ! j = Some e \<and>
        out ! j = performAll (relationshipAssignments (relationshipAt rels (Suc i + j)))
                    (flattenNameValueList (orEmpty (name_value_list e)) [])"
    by blast
  have "flattenLoop rels i (entry # rest) parsed = Inr (parsed @ (?fe # out))"
    by (simp add: step out)
  moreover have "length (?fe # out) = length (entry # rest)"
    by (simp add: len)
  moreover have "\<forall>j < length (entry # rest). \<exists>e'. (entry # rest) ! j = Some e' \<and>
        (?fe # out) ! j = performAll (relationshipAssignments (relationshipAt rels (i + j)))
                    (flattenNameValueList (orEmpty (name_value_list e')) [])"
  proof (intro allI impI)
    fix j assume j: "j < length (entry # rest)"
    show "\<exists>e'. (entry # rest) ! j = Some e' \<and>
        (?fe # out) ! j = performAll (relationshipAssignments (relationshipAt rels (i + j)))
                    (flattenNameValueList (orEmpty (name_value_list e')) [])"
    proof (cases j)
      case 0
      then show ?thesis by (simp add: e)
    next
      case (Suc k)
      with j at show ?thesis by simp
    qed
  qed
  ultimately show ?case by blast
qed

lemma flattenEntryList_wellFormed:
  assumes "wellFormed r"
  shows "\<exists>out. flattenEntryList r = Inr out \<and>
     length out = length (entryList r) \<and>
     (\<forall>j < length (entryList r). \<exists>e. entryList r ! j = Some e \<and>
        out ! j = performAll (ownAssignments (orEmpty (name_value_list e)) @
                      relationshipAssignments (relationshipAt (relationshipList r) j)) [])"
proof -
  from assms have "list_all (\<lambda>entry. entry \<noteq> None) (entryList r)"
    and "list_all wellFormedRelationship (relationshipList r)"
    by (simp_all add: wellFormed_def)
  from flattenLoop_wellFormed [OF this, of 0 "[]"] show ?thesis
    by (simp add: flattenEntryList_def flattenNameValueList_performAll performAll_append)
qed

lemma flattenEntryList_index:
  assumes "wellFormed r" and "i < length (entryList r)"
  shows "\<exists>out e. flattenEntryList r = Inr out \<and>
     length out = length (entryList r) \<and>
     entryList r ! i = Some e \<and>
     out ! i = performAll (ownAssignments (orEmpty (name_value_list e)) @
                 relationshipAssignments (relationshipAt (relationshipList r) i)) []"
proof -
  from flattenEntryList_wellFormed [OF assms(1)]
  obtain out where out: "flattenEntryList r = Inr out"
    and len: "length out = length (entryList r)"
    and all: "\<forall>j < length (entryList r). \<exists>e. entryList r ! j = Some e \<and>
        out ! j = performAll (ownAssignments (orEmpty (name_value_list e)) @
                      relationshipAssignments (relationshipAt (relationshipList r) j)) []"
    by blast
  from all assms(2) obtain e where "entryList r ! i = Some e"
    and "out ! i = performAll (ownAssignments (orEmpty (name_value_list e)) @
                      relationshipAssignments (relationshipAt (relationshipList r) i)) []"
    by blast
  with out len show ?thesis by blast
qed

subsection \<open>Membership in the assignments of a response\<close>

lemma present_iff: "x \<in> set (present xs) \<longleftrightarrow> Some x \<in> set xs"
  by (induction xs rule: present.induct) auto

lemma present_append: "present (xs @ ys) = present xs @ present ys"
  by (induction xs rule: present.induct) simp_all

lemma in_relationshipAssignments:
  assumes "Some link \<in> set (orEmpty (link_list rel))"
    and "Some rcd \<in> set (orEmpty (records link))"
    and "(fieldName, fieldValue) \<in> set (orEmpty (link_value rcd))"
  shows "(snakeToCamel (name link @ ''_'' @ fieldName), valueOf fieldValue)
           \<in> set (relationshipAssignments (Some rel))"
proof -
  have "(snakeToCamel (name link @ ''_'' @ fieldName), valueOf fieldValue)
          \<in> set (recordAssignments (name link) rcd)"
    using assms(3) by (force simp: recordAssignments_def fieldAssignments_def)
  then have "(snakeToCamel (name link @ ''_'' @ fieldName), valueOf fieldValue)
          \<in> set (linkAssignments link)"
    using assms(2) by (auto simp: linkAssignments_def present_iff)
  then show ?thesis
    using assms(1) by (auto simp: relationshipAssignments_def present_iff)
qed

lemma relationshipAssignments_split:
  assumes "orEmpty (link_list rel) = groupsBefore @ Some link # groupsAfter"
    and "orEmpty (records link) = recordsBefore @ Some rcd # recordsAfter"
    and "orEmpty (link_value rcd) = fieldsBefore @ (fieldName, fieldValue) # fieldsAfter"
  shows "\<exists>earlier. relationshipAssignments (Some rel) =
     earlier @ (snakeToCamel (name link @ ''_'' @ fieldName), valueOf fieldValue) #
       (fieldAssignments (name link) fieldsAfter @
        concat (map (recordAssignments (name link)) (present recordsAfter)) @
        concat (map linkAssignments (present groupsAfter)))"
proof -
  let ?a = "(snakeToCamel (name link @ ''_'' @ fieldName), valueOf fieldValue)"
  have r: "recordAssignments (name link) rcd =
      fieldAssignments (name link) fieldsBefore @ ?a # fieldAssignments (name link) fieldsAfter"
    by (simp add: recordAssignments_def fieldAssignments_def assms(3))
  have l: "linkAssignments link =
      concat (map (recordAssignments (name link)) (present recordsBefore)) @
      recordAssignments (name link) rcd @
      concat (map (recordAssignments (name link)) (present recordsAfter))"
    by (simp add: linkAssignments_def assms(2) present_append)
  have g: "relationshipAssignments (Some rel) =
      concat (map linkAssignments (present groupsBefore)) @
      linkAssignments link @
      concat (map linkAssignments (present groupsAfter))"
    by (simp add: relationshipAssignments_def assms(1) present_append)
  have "relationshipAssignments (Some rel) =
      (concat (map linkAssignments (present groupsBefore)) @
       concat (map (recordAssignments (name link)) (present recordsBefore)) @
       fieldAssignments (name link) fieldsBefore) @ ?a #
       (fieldAssignments (name link) fieldsAfter @
        concat (map (recordAssignments (name link)) (present recordsAfter)) @
        concat (map linkAssignments (present groupsAfter)))"
    by (simp add: g l r)
  then show ?thesis by blast
qed

subsection \<open>The claims about flattening\<close>

text \<open>
  Claim C2. Last write wins. Let a sub-record of a relationship group at index \<open>i\<close>
  hold a field whose composite key is \<open>k\<close>, and let nothing that the response presents
  after it write \<open>k\<close> again: no later field of the same sub-record, no later sub-record
  of the same group, no later group. Then the flattened record \<open>i\<close> holds that field's
  value under \<open>k\<close>, whatever earlier sub-records (or own fields) had written there.
\<close>

theorem flatten_last_write_wins:
  assumes "wellFormed r" and "i < length (entryList r)"
    and "relationshipAt (relationshipList r) i = Some rel"
    and "orEmpty (link_list rel) = groupsBefore @ Some link # groupsAfter"
    and "orEmpty (records link) = recordsBefore @ Some rcd # recordsAfter"
    and "orEmpty (link_value rcd) = fieldsBefore @ (fieldName, fieldValue) # fieldsAfter"
    and "k = snakeToCamel (name link @ ''_'' @ fieldName)"
    and "k \<notin> fst ` set (fieldAssignments (name link) fieldsAfter)"
    and "k \<notin> fst ` set (concat (map (recordAssignments (name link)) (present recordsAfter)))"
    and "k \<notin> fst ` set (concat (map linkAssignments (present groupsAfter)))"
  shows "\<exists>out. flattenEntryList r = Inr out \<and> map_of (out ! i) k = Some (valueOf fieldValue)"
proof -
  let ?later = "fieldAssignments (name link) fieldsAfter @
        concat (map (recordAssignments (name link)) (present recordsAfter)) @
        concat (map linkAssignments (present groupsAfter))"
  from relationshipAssignments_split [OF assms(4-6)]
  obtain earlier where split:
    "relationshipAssignments (Some rel) = earlier @ (k, valueOf fieldValue) # ?later"
    unfolding assms(7) by blast
  have later: "k \<notin> fst ` set ?later"
    using assms(8-10) by (simp add: image_Un)
  from flattenEntryList_index [OF assms(1,2)]
  obtain out and e :: Entry where out: "flattenEntryList r = Inr out"
    and at: "out ! i = performAll (ownAssignments (orEmpty (name_value_list e)) @
                      relationshipAssignments (relationshipAt (relationshipList r) i)) []"
    by blast
  have eq: "out ! i = performAll
      ((ownAssignments (orEmpty (name_value_list e)) @ earlier) @ (k, valueOf fieldValue) # ?later) []"
    by (simp add: at assms(3) split)
  have "map_of (out ! i) k = Some (valueOf fieldValue)"
    unfolding eq by (rule performAll_last_write [OF refl later])
  with out show ?thesis by blast
qed

theorem flatten_last_write_wins_witness:
  "wellFormed
     \<lparr>entry_list = Some [Some \<lparr>name_value_list = Some [field ''id'' (JString ''1'')]\<rparr>],
      relationship_list = Some [Some \<lparr>link_list = Some [Some
        \<lparr>name = ''contacts'',
         records = Some
           [Some \<lparr>link_value = Some [field ''email1'' (JString ''a@y.com'')]\<rparr>,
            Some \<lparr>link_value = Some [field ''email1'' (JString ''b@y.com'')]\<rparr>]\<rparr>]\<rparr>]\<rparr> \<and>
   flattenEntryList
     \<lparr>entry_list = Some [Some \<lparr>name_value_list = Some [field ''id'' (JString ''1'')]\<rparr>],
      relationship_list = Some [Some \<lparr>link_list = Some [Some
        \<lparr>name = ''contacts'',
         records = Some
           [Some \<lparr>link_value = Some [field ''email1'' (JString ''a@y.com'')]\<rparr>,
            Some \<lparr>link_value = Some [field ''email1'' (JString ''b@y.com'')]\<rparr>]\<rparr>]\<rparr>]\<rparr>
     = Inr [[(''id'', JString ''1''), (''contactsEmail1'', JString ''b@y.com'')]] \<and>
   map_of ([[(''id'', JString ''1''), (''contactsEmail1'', JString ''b@y.com'')]] ! 0)
     ''contactsEmail1'' = Some (JString ''b@y.com'')"
proof -
  let ?first = "\<lparr>link_value = Some [field ''email1'' (JString ''a@y.com'')]\<rparr>"
  let ?second = "\<lparr>link_value = Some [field ''email1'' (JString ''b@y.com'')]\<rparr>"
  let ?link = "\<lparr>name = ''contacts'', records = Some [Some ?first, Some ?second]\<rparr>"
  let ?rel = "\<lparr>link_list = Some [Some ?link]\<rparr>"
  let ?r = "\<lparr>entry_list = Some [Some \<lparr>name_value_list = Some [field ''id'' (JString ''1'')]\<rparr>],
      relationship_list = Some [Some ?rel]\<rparr>"
  have wf: "wellFormed ?r"
    by code_simp
  have i: "0 < length (entryList ?r)"
    by code_simp
  have rel: "relationshipAt (relationshipList ?r) 0 = Some ?rel"
    by code_simp
  have groups: "orEmpty (link_list ?rel) = [] @ Some ?link # []"
    by code_simp
  have recs: "orEmpty (records ?link) = [Some ?first] @ Some ?second # []"
    by code_simp
  have flds: "orEmpty (link_value ?second) =
      [] @ (''email1'', Some \<lparr>nv_name = ''email1'', nv_value = JString ''b@y.com''\<rparr>) # []"
    by code_simp
  have k: "''contactsEmail1'' = snakeToCamel (name ?link @ ''_'' @ ''email1'')"
    by code_simp
  have l1: "''contactsEmail1'' \<notin> fst ` set (fieldAssignments (name ?link) [])"
    by code_simp
  have l2: "''contactsEmail1'' \<notin>
      fst ` set (concat (map (recordAssignments (name ?link)) (present [])))"
    by code_simp
  have l3: "''contactsEmail1'' \<notin> fst ` set (concat (map linkAssignments (present [])))"
    by code_simp
  have ev: "flattenEntryList ?r =
      Inr [[(''id'', JString ''1''), (''contactsEmail1'', JString ''b@y.com'')]]"
    by code_simp
  from flatten_last_write_wins [OF wf i rel groups recs flds k l1 l2 l3]
  obtain out where "flattenEntryList ?r = Inr out"
    and "map_of (out ! 0) ''contactsEmail1'' =
      Some (valueOf (Some \<lparr>nv_name = ''email1'', nv_value = JString ''b@y.com''\<rparr>))"
    by blast
  with ev have "map_of ([[(''id'', JString ''1''), (''contactsEmail1'', JString ''b@y.com'')]] ! 0)
     ''contactsEmail1'' = Some (JString ''b@y.com'')"
    by (simp add: valueOf_def)
  with wf ev show ?thesis
    by blast
qed







subsection \<open>Missing components\<close>

lemma orEmpty_Some: "orEmpty (Some xs) = xs"
  by (simp add: orEmpty_def)

lemma flattenRecords_fill:
  "flattenRecords lnk (map (map_option fillRecord) recs) obj = flattenRecords lnk recs obj"
  by (induction lnk recs obj rule: flattenRecords.induct)
     (simp_all add: fillRecord_def orEmpty_Some)

lemma flattenLinkList_fill:
  "flattenLinkList (map (map_option fillLink) lnks) obj = flattenLinkList lnks obj"
proof (induction lnks obj rule: flattenLinkList.induct)
  case (3 link rest flatEntry)
  have "flattenRecords (name (fillLink link)) (orEmpty (records (fillLink link))) flatEntry =
      flattenRecords (name link) (orEmpty (records link)) flatEntry"
    by (simp add: fillLink_def orEmpty_Some flattenRecords_fill)
  with "3.IH" show ?case
    by (simp split: sum.splits)
qed simp_all

lemma flattenEntry_fill:
  "flattenEntry (map_option fillEntry entry) (map_option fillRelationship relationship) =
     flattenEntry entry relationship"
  by (cases entry; cases relationship)
     (simp_all add: flattenEntry_def fillEntry_def fillRelationship_def orEmpty_Some
        flattenLinkList_fill)

lemma relationshipAt_map:
  "relationshipAt (map (map_option g) rels) i = map_option g (relationshipAt rels i)"
  by (simp add: relationshipAt_def)

lemma flattenLoop_fill:
  "flattenLoop (map (map_option fillRelationship) rels) i (map (map_option fillEntry) entries) parsed =
     flattenLoop rels i entries parsed"
  by (induction entries arbitrary: i parsed)
     (simp_all add: relationshipAt_map flattenEntry_fill split: sum.splits)

lemma flattenEntryList_fillMissing:
  "flattenEntryList (fillMissing r) = flattenEntryList r"
  by (simp add: flattenEntryList_def fillMissing_def entryList_def relationshipList_def
        orEmpty_Some flattenLoop_fill)

text \<open>
  Claim C7. Flattening a well-formed response returns a result, one record for every
  primary record. Where the primary record \<open>i\<close> has no relationship entry (the
  relationship list is shorter, or its element \<open>i\<close> is absent) the record \<open>i\<close> is the
  record of the own fields alone, with exactly their keys. A missing \<open>entry_list\<close>,
  \<open>relationship_list\<close>, \<open>name_value_list\<close>, \<open>link_list\<close>, \<open>records\<close> or \<open>link_value\<close>
  counts as an empty one: the result is that of the response with all of them filled in.
\<close>

theorem flatten_total:
  assumes "wellFormed r"
  shows "\<exists>out. flattenEntryList r = Inr out \<and> length out = length (entryList r) \<and>
     (\<forall>i < length (entryList r). relationshipAt (relationshipList r) i = None \<longrightarrow>
        (\<exists>e. entryList r ! i = Some e \<and>
           out ! i = flattenNameValueList (orEmpty (name_value_list e)) [] \<and>
           fst ` set (out ! i) = snakeToCamel ` fst ` set (orEmpty (name_value_list e)))) \<and>
     flattenEntryList (fillMissing r) = Inr out"
proof -
  from flattenEntryList_wellFormed [OF assms]
  obtain out where out: "flattenEntryList r = Inr out"
    and len: "length out = length (entryList r)"
    and all: "\<forall>j < length (entryList r). \<exists>e. entryList r ! j = Some e \<and>
        out ! j = performAll (ownAssignments (orEmpty (name_value_list e)) @
                      relationshipAssignments (relationshipAt (relationshipList r) j)) []"
    by blast
  have "\<exists>e. entryList r ! i = Some e \<and>
           out ! i = flattenNameValueList (orEmpty (name_value_list e)) [] \<and>
           fst ` set (out ! i) = snakeToCamel ` fst ` set (orEmpty (name_value_list e))"
    if i: "i < length (entryList r)" and none: "relationshipAt (relationshipList r) i = None"
    for i
  proof -
    from all i obtain e where e: "entryList r ! i = Some e"
      and at: "out ! i = performAll (ownAssignments (orEmpty (name_value_list e)) @
                      relationshipAssignments (relationshipAt (relationshipList r) i)) []"
      by blast
    have own: "out ! i = performAll (ownAssignments (orEmpty (name_value_list e))) []"
      by (simp add: at none relationshipAssignments_def)
    have "fst ` set (ownAssignments (orEmpty (name_value_list e))) =
        snakeToCamel ` fst ` set (orEmpty (name_value_list e))"
      by (force simp: ownAssignments_def)
    then have "fst ` set (out ! i) = snakeToCamel ` fst ` set (orEmpty (name_value_list e))"
      by (simp add: own keys_performAll)
    with e own show ?thesis
      by (simp add: flattenNameValueList_performAll)
  qed
  with out len show ?thesis
    by (simp add: flattenEntryList_fillMissing)
qed

theorem flatten_total_witness:
  "wellFormed
     \<lparr>entry_list = Some
        [Some \<lparr>name_value_list = Some [field ''first_name'' (JString ''A'')]\<rparr>,
         Some \<lparr>name_value_list = Some [field ''first_name'' (JString ''B'')]\<rparr>,
         Some \<lparr>name_value_list = None\<rparr>],
      relationship_list = Some [Some \<lparr>link_list = Some [Some
        \<lparr>name = ''contacts'', records = None\<rparr>]\<rparr>]\<rparr> \<and>
   flattenEntryList
     \<lparr>entry_list = Some
        [Some \<lparr>name_value_list = Some [field ''first_name'' (JString ''A'')]\<rparr>,
         Some \<lparr>name_value_list = Some [field ''first_name'' (JString ''B'')]\<rparr>,
         Some \<lparr>name_value_list = None\<rparr>],
      relationship_list = Some [Some \<lparr>link_list = Some [Some
        \<lparr>name = ''contacts'', records = None\<rparr>]\<rparr>]\<rparr>
     = Inr [[(''firstName'', JString ''A'')], [(''firstName'', JString ''B'')], []] \<and>
   relationshipAt [Some \<lparr>link_list = Some [Some
        \<lparr>name = ''contacts'', records = None\<rparr>]\<rparr>] 1 = None \<and>
   length [[(''firstName'', JString ''A'')], [(''firstName'', JString ''B'')], [] :: flatEntry] = 3"
proof -
  let ?r = "\<lparr>entry_list = Some
        [Some \<lparr>name_value_list = Some [field ''first_name'' (JString ''A'')]\<rparr>,
         Some \<lparr>name_value_list = Some [field ''first_name'' (JString ''B'')]\<rparr>,
         Some \<lparr>name_value_list = None\<rparr>],
      relationship_list = Some [Some \<lparr>link_list = Some [Some
        \<lparr>name = ''contacts'', records = None\<rparr>]\<rparr>]\<rparr>"
  have wf: "wellFormed ?r"
    by code_simp
  have ev: "flattenEntryList ?r =
      Inr [[(''firstName'', JString ''A'')], [(''firstName'', JString ''B'')], []]"
    by code_simp
  have n: "length (entryList ?r) = 3"
    by code_simp
  from flatten_total [OF wf]
  obtain out where "flattenEntryList ?r = Inr out" and "length out = length (entryList ?r)"
    by blast
  with ev n have "length [[(''firstName'', JString ''A'')], [(''firstName'', JString ''B'')],
      [] :: flatEntry] = 3"
    by simp
  moreover have "relationshipAt [Some \<lparr>link_list = Some [Some
        \<lparr>name = ''contacts'', records = None\<rparr>]\<rparr>] 1 = None"
    by code_simp
  ultimately show ?thesis
    using wf ev by blast
qed

text \<open>
  A response that is not well formed makes the loop raise: a \<^verbatim>\<open>null\<close> entry ends the
  call with \<^verbatim>\<open>TypeError\<close>.
\<close>

lemma flatten_null_entry:
  "flattenEntryList \<lparr>entry_list = Some [None], relationship_list = None\<rparr> = Inl TypeError"
  by code_simp

subsection \<open>Queries\<close>

text \<open>
  Claim C6. A query returns the flattened response whatever own fields and relationship
  fields the caller selected: the result is \<open>flattenEntryList\<close> of the response, which
  takes no selection. Every own field of the primary record \<open>i\<close> of the response and
  every field of every sub-record of its relationship entry has its key in the record
  \<open>i\<close> of the result.
\<close>

theorem getEntryList_keeps_every_field:
  assumes "call (entryArgs options) = Inr raw" and "wellFormed raw"
    and "i < length (entryList raw)" and "entryList raw ! i = Some e"
  shows "\<exists>out. getEntryList call options = Inr out \<and> flattenEntryList raw = Inr out \<and>
     length out = length (entryList raw) \<and>
     (\<forall>(key, valueObj) \<in> set (orEmpty (name_value_list e)).
        snakeToCamel key \<in> fst ` set (out ! i)) \<and>
     (\<forall>rel link rcd. relationshipAt (relationshipList raw) i = Some rel \<longrightarrow>
        Some link \<in> set (orEmpty (link_list rel)) \<longrightarrow>
        Some rcd \<in> set (orEmpty (records link)) \<longrightarrow>
        (\<forall>(fieldName, fieldValue) \<in> set (orEmpty (link_value rcd)).
           snakeToCamel (name link @ ''_'' @ fieldName) \<in> fst ` set (out ! i)))"
proof -
  let ?rels = "relationshipAssignments (relationshipAt (relationshipList raw) i)"
  from flattenEntryList_index [OF assms(2,3)] assms(4)
  obtain out where out: "flattenEntryList raw = Inr out"
    and len: "length out = length (entryList raw)"
    and at: "out ! i = performAll (ownAssignments (orEmpty (name_value_list e)) @ ?rels) []"
    by auto
  have keys: "fst ` set (out ! i) =
      fst ` set (ownAssignments (orEmpty (name_value_list e))) \<union> fst ` set ?rels"
    by (simp add: at keys_performAll image_Un)
  have get: "getEntryList call options = Inr out"
    by (simp add: getEntryList_def getEntryListRaw_def assms(1) out)
  have own: "\<forall>(key, valueObj) \<in> set (orEmpty (name_value_list e)).
        snakeToCamel key \<in> fst ` set (out ! i)"
    unfolding keys by (force simp: ownAssignments_def)
  have rel: "snakeToCamel (name link @ ''_'' @ fieldName) \<in> fst ` set (out ! i)"
    if "relationshipAt (relationshipList raw) i = Some rel"
      and "Some link \<in> set (orEmpty (link_list rel))"
      and "Some rcd \<in> set (orEmpty (records link))"
      and "(fieldName, fieldValue) \<in> set (orEmpty (link_value rcd))"
    for rel link rcd fieldName fieldValue
  proof -
    from in_relationshipAssignments [OF that(2-4)]
    have "snakeToCamel (name link @ ''_'' @ fieldName) \<in> fst ` set ?rels"
      unfolding that(1) by force
    then show ?thesis
      by (simp add: keys)
  qed
  from get out len own rel show ?thesis
    by blast
qed

theorem getEntryList_keeps_every_field_witness:
  "getEntryList
     (\<lambda>args. Inr
        \<lparr>entry_list = Some [Some \<lparr>name_value_list = Some
           [field ''id'' (JString ''1''), field ''first_name'' (JString ''A'')]\<rparr>],
         relationship_list = Some [Some \<lparr>link_list = Some [Some
           \<lparr>name = ''contacts'',
            records = Some [Some \<lparr>link_value = Some [field ''email1'' (JString ''x@y.com'')]\<rparr>]\<rparr>]\<rparr>]\<rparr>)
     \<lparr>targetModule = SuiteCrmModule ''Accounts'' 0, query = '''', orderBy = None, offset = None,
      selectedFields = Some [], linkNameToFieldsArray = None, maxResults = None, deleted = None\<rparr>
     = Inr [[(''id'', JString ''1''), (''firstName'', JString ''A''),
             (''contactsEmail1'', JString ''x@y.com'')]] \<and>
   arg_select_fields (entryArgs
     \<lparr>targetModule = SuiteCrmModule ''Accounts'' 0, query = '''', orderBy = None, offset = None,
      selectedFields = Some [], linkNameToFieldsArray = None, maxResults = None, deleted = None\<rparr>)
     = [] \<and>
   snakeToCamel ''first_name'' \<in> fst ` set
     ([[(''id'', JString ''1''), (''firstName'', JString ''A''),
        (''contactsEmail1'', JString ''x@y.com'')]] ! 0)"
proof -
  let ?e = "\<lparr>name_value_list = Some
           [field ''id'' (JString ''1''), field ''first_name'' (JString ''A'')]\<rparr>"
  let ?raw = "\<lparr>entry_list = Some [Some ?e],
         relationship_list = Some [Some \<lparr>link_list = Some [Some
           \<lparr>name = ''contacts'',
            records = Some [Some \<lparr>link_value = Some [field ''email1'' (JString ''x@y.com'')]\<rparr>]\<rparr>]\<rparr>]\<rparr>"
  let ?call = "\<lambda>args :: GetEntryListArgs. Inr ?raw :: error + EntryListResponse"
  let ?options = "\<lparr>targetModule = SuiteCrmModule ''Accounts'' 0, query = '''', orderBy = None,
      offset = None, selectedFields = Some [], linkNameToFieldsArray = None, maxResults = None,
      deleted = None\<rparr>"
  let ?out = "[[(''id'', JString ''1''), (''firstName'', JString ''A''),
             (''contactsEmail1'', JString ''x@y.com'')]]"
  have call: "?call (entryArgs ?options) = Inr ?raw"
    by simp
  have wf: "wellFormed ?raw"
    by code_simp
  have i: "0 < length (entryList ?raw)"
    by code_simp
  have e: "entryList ?raw ! 0 = Some ?e"
    by code_simp
  have ev: "getEntryList ?call ?options = Inr ?out"
    by code_simp
  have sel: "arg_select_fields (entryArgs ?options) = []"
    by code_simp
  have mem: "(''first_name'', Some \<lparr>nv_name = ''first_name'', nv_value = JString ''A''\<rparr>)
      \<in> set (orEmpty (name_value_list ?e))"
    by code_simp
  from getEntryList_keeps_every_field [OF call wf i e]
  obtain out where "getEntryList ?call ?options = Inr out"
    and "\<forall>(key, valueObj) \<in> set (orEmpty (name_value_list ?e)).
        snakeToCamel key \<in> fst ` set (out ! 0)"
    by blast
  with ev mem have "snakeToCamel ''first_name'' \<in> fst ` set (?out ! 0)"
    by fastforce
  with ev sel show ?thesis
    by blast
qed

text \<open>
  Claim C10. When the caller leaves the option out, \<open>offset\<close> is sent as 0,
  \<open>max_results\<close> as 20, \<open>select_fields\<close> and \<open>link_name_to_fields_array\<close> as the empty
  list and \<open>order_by\<close> as the empty string; \<open>deleted\<close> is sent as 1 exactly when the
  option \<open>deleted\<close> is \<open>true\<close>, and as 0 otherwise.
\<close>

theorem entryArgs_defaults:
  "(offset options = None \<longrightarrow> arg_offset (entryArgs options) = 0) \<and>
   (maxResults options = None \<longrightarrow> arg_max_results (entryArgs options) = 20) \<and>
   (selectedFields options = None \<longrightarrow> arg_select_fields (entryArgs options) = []) \<and>
   (linkNameToFieldsArray options = None \<longrightarrow>
      arg_link_name_to_fields_array (entryArgs options) = []) \<and>
   (orderBy options = None \<longrightarrow> arg_order_by (entryArgs options) = []) \<and>
   (arg_deleted (entryArgs options) = 1 \<longleftrightarrow> deleted options = Some True) \<and>
   (arg_deleted (entryArgs options) = 0 \<longleftrightarrow> deleted options \<noteq> Some True) \<and>
   getEntryListRaw call options = call (entryArgs options)"
  by (simp add: entryArgs_def getEntryListRaw_def)

theorem entryArgs_defaults_witness:
  "entryArgs
     \<lparr>targetModule = SuiteCrmModule ''Accounts'' 0, query = ''accounts.name = 1'',
      orderBy = None, offset = None, selectedFields = None, linkNameToFieldsArray = None,
      maxResults = None, deleted = None\<rparr>
   = \<lparr>arg_module_name = ''Accounts'', arg_query = ''accounts.name = 1'', arg_order_by = [],
      arg_offset = 0, arg_select_fields = [], arg_link_name_to_fields_array = [],
      arg_max_results = 20, arg_deleted = 0\<rparr> \<and>
   arg_deleted (entryArgs
     \<lparr>targetModule = SuiteCrmModule ''Accounts'' 0, query = [],
      orderBy = Some ''dateEntered'', offset = Some 40, selectedFields = Some [''firstName''],
      linkNameToFieldsArray = None, maxResults = Some 5, deleted = Some True\<rparr>) = 1"
proof -
  let ?o = "\<lparr>targetModule = SuiteCrmModule ''Accounts'' 0, query = ''accounts.name = 1'',
      orderBy = None, offset = None, selectedFields = None, linkNameToFieldsArray = None,
      maxResults = None, deleted = None\<rparr>"
  let ?d = "\<lparr>targetModule = SuiteCrmModule ''Accounts'' 0, query = [],
      orderBy = Some ''dateEntered'', offset = Some 40, selectedFields = Some [''firstName''],
      linkNameToFieldsArray = None, maxResults = Some 5, deleted = Some True\<rparr>"
  have "arg_offset (entryArgs ?o) = 0" and "arg_max_results (entryArgs ?o) = 20"
    and "arg_select_fields (entryArgs ?o) = []"
    and "arg_link_name_to_fields_array (entryArgs ?o) = []"
    and "arg_order_by (entryArgs ?o) = []" and "arg_deleted (entryArgs ?o) = 0"
    using entryArgs_defaults [of ?o] by simp_all
  moreover have "arg_module_name (entryArgs ?o) = ''Accounts''"
    and "arg_query (entryArgs ?o) = ''accounts.name = 1''"
    by (simp_all add: entryArgs_def)
  moreover have "arg_deleted (entryArgs ?d) = 1"
    using entryArgs_defaults [of ?d] by simp
  ultimately show ?thesis
    by (simp add: GetEntryListArgs.equality)
qed

section \<open>Properties of the deep conversion\<close>

text \<open>
  Claim C9 does not hold of the code for the items of an array. A value stored directly
  under a key is converted as the claim says: an instance of a class is a leaf. An item
  of an array is passed to the function itself whenever it is an object, with no test
  for an array or for the constructor: an array inside an array comes back as a plain
  object keyed by the indices, and a \<^verbatim>\<open>Date\<close> inside an array comes back as an empty
  plain object.
\<close>

theorem objectToSnakeCase_array_items:
  "objectToSnakeCase [(''rowValues'', JArray [JArray [JNumber 1, JNumber 2]])] =
     [(''row_values'', JArray [JObject [(''0'', JNumber 1), (''1'', JNumber 2)]])] \<and>
   objectToSnakeCase [(''seenAt'', JArray [JInstance ''Date'' []])] =
     [(''seen_at'', JArray [JObject []])] \<and>
   objectToSnakeCase [(''seenAt'', JInstance ''Date'' [])] =
     [(''seen_at'', JInstance ''Date'' [])] \<and>
   objectToSnakeCase [(''outerKey'', JObject [(''innerKey'', JArray [JObject [(''itemKey'', JNull)]])])] =
     [(''outer_key'', JObject [(''inner_key'', JArray [JObject [(''item_key'', JNull)]])])] \<and>
   objectToCamelCase [(''row_values'', JArray [JArray [JNumber 1, JNumber 2]])] =
     [(''rowValues'', JArray [JObject [(''0'', JNumber 1), (''1'', JNumber 2)]])] \<and>
   objectToCamelCase [(''seen_at'', JArray [JInstance ''Date'' []])] =
     [(''seenAt'', JArray [JObject []])]"
  by code_simp

end
